theory Spec2Isabelle
  imports Complex_Main "HOL-Library.Char_ord" "HOL-Library.AList"
begin

section \<open>The vowel purchasing engine of \<open>ai/wheel_ai.py\<close>\<close>

text \<open>
  The class \<open>WheelAI\<close> decides whether a player should buy a vowel. This theory embeds
  its methods \<open>_generate_regex\<close>, \<open>_get_candidates\<close>, \<open>_vowel_probabilities\<close>,
  \<open>_fallback_stats\<close> and \<open>should_buy_vowel\<close>, together with the part of Python's
  \<open>re\<close> module that the generated patterns exercise.

  Modelling conventions.
  \<^item> A Python string is a \<open>string\<close>; a one-character string is a \<open>char\<close>. The characters
    are those of ASCII: \<open>str.isalpha\<close> and \<open>str.upper\<close> are modelled on the ASCII
    letters, and a \<open>char\<close> above 127 stands for a symbol that is not a letter, a digit or
    white space and has no upper case.
  \<^item> \<open>used_letters\<close> is a set of characters, \<open>char set\<close>.
  \<^item> Python's numbers (\<open>current_money\<close>, \<open>vowel_cost\<close>, the probabilities and scores)
    are exact rationals; the rounding of binary floating point is not modelled.
  \<^item> A dictionary is an association list in insertion order, because \<open>max\<close> over a
    dictionary returns the first maximal key in that order.
  \<^item> \<open>self.vowels\<close> is a Python set of strings, whose iteration order is fixed within a
    process but not by the language; the order is the field \<open>vowels\<close> of the model.
  \<^item> An exception is a value \<open>Inl e\<close> of the result type.
\<close>

subsection \<open>Characters\<close>

definition ascii_letter :: "char \<Rightarrow> bool" where
  "ascii_letter c \<longleftrightarrow>
     (CHR ''A'' \<le> c \<and> c \<le> CHR ''Z'') \<or> (CHR ''a'' \<le> c \<and> c \<le> CHR ''z'')"

definition ascii_digit :: "char \<Rightarrow> bool" where
  "ascii_digit c \<longleftrightarrow> CHR ''0'' \<le> c \<and> c \<le> CHR ''9''"

definition hex_digit :: "char \<Rightarrow> bool" where
  "hex_digit c \<longleftrightarrow>
     ascii_digit c \<or> (CHR ''A'' \<le> c \<and> c \<le> CHR ''F'') \<or> (CHR ''a'' \<le> c \<and> c \<le> CHR ''f'')"

text \<open>\<open>c.isalpha()\<close> on the modelled characters.\<close>

definition isalpha :: "char \<Rightarrow> bool" where
  "isalpha c \<longleftrightarrow> ascii_letter c"

text \<open>\<open>c.upper()\<close> on the modelled characters.\<close>

definition upper_char :: "char \<Rightarrow> char" where
  "upper_char c =
     (if CHR ''a'' \<le> c \<and> c \<le> CHR ''z'' then char_of (of_char c - (32::nat)) else c)"

definition upper :: "string \<Rightarrow> string" where
  "upper s = map upper_char s"

text \<open>\<open>s.replace(" ", "")\<close>.\<close>

definition remove_spaces :: "string \<Rightarrow> string" where
  "remove_spaces s = filter (\<lambda>c. c \<noteq> CHR '' '') s"

subsection \<open>Errors\<close>

text \<open>
  \<open>RegexError\<close> is \<open>re.error\<close>, raised by \<open>re.compile\<close>. \<open>ValueError\<close> is what \<open>max\<close>
  raises on an empty dictionary and \<open>KeyError\<close> what a missing key raises.
  \<open>OutsideFragment\<close> is not a Python exception: the model of \<open>re.compile\<close> returns it on
  pattern syntax that it does not interpret (groups, quantifiers, numeric escapes).
\<close>

datatype error = RegexError | ValueError | KeyError | OutsideFragment

subsection \<open>The pattern compiler: \<open>_generate_regex\<close>\<close>

text \<open>
  \<open>re.escape\<close> on one character: the characters of \<open>_special_chars_map\<close> get a
  backslash, every other character is left as it is.
\<close>

definition special_chars :: "char list" where
  "special_chars =
     ''()[]{}?*+-|^$'' @ [CHR 0x5C] @ ''.&~# '' @ [CHR 0x09, CHR 0x0A, CHR 0x0D, CHR 0x0B, CHR 0x0C]"

definition re_escape :: "char \<Rightarrow> string" where
  "re_escape c = (if c \<in> set special_chars then [CHR 0x5C, c] else [c])"

text \<open>The loop \<open>for c in clean\<close> that appends one piece of pattern text per character.\<close>

fun regex_body :: "string \<Rightarrow> string \<Rightarrow> string" where
  "regex_body exclusion [] = []"
| "regex_body exclusion (c # cs) =
     (if c = CHR ''_'' then exclusion
      else if isalpha c then [c]
      else re_escape c) @ regex_body exclusion cs"

definition generate_regex :: "string \<Rightarrow> char set \<Rightarrow> string" where
  "generate_regex board_pattern used_letters =
     (let clean = upper (remove_spaces board_pattern);
          revealed = set (filter isalpha clean);
          dead = used_letters - revealed;
          excluded = revealed \<union> dead;
          exclusion = (if excluded \<noteq> {}
                       then ''[^'' @ sorted_list_of_set excluded @ '']''
                       else ''.'')
      in ''^'' @ regex_body exclusion clean @ ''$'')"

subsection \<open>Python's \<open>re\<close>: the patterns \<open>_generate_regex\<close> can produce\<close>

text \<open>
  The tokenizer of \<open>re\<close> reads a backslash together with the character after it. A
  backslash at the end of the pattern is an error, raised when the tokenizer reaches it;
  here it is the token \<open>TBad\<close>, on which the parser fails.
\<close>

datatype tok = TChar char | TEsc char | TBad

fun tokenize :: "string \<Rightarrow> tok list" where
  "tokenize [] = []"
| "tokenize [c] = (if c = CHR 0x5C then [TBad] else [TChar c])"
| "tokenize (c # d # cs) =
     (if c = CHR 0x5C then TEsc d # tokenize cs else TChar c # tokenize (d # cs))"

datatype category = Digit | NotDigit | Space | NotSpace | Word | NotWord

datatype set_item = LITERAL char | RANGE char char | CATEGORY category

datatype atom = AT_BEGINNING | AT_END | ANY | LIT char | IN_SET bool "set_item list"

type_synonym regex = "atom list list"

text \<open>
  Whether at least \<open>n\<close> hexadecimal digits follow, as \<open>source.getwhile(n, HEXDIGITS)\<close>
  finds them.
\<close>

definition hex_follow :: "nat \<Rightarrow> tok list \<Rightarrow> bool" where
  "hex_follow n ts \<longleftrightarrow>
     n \<le> length ts \<and> list_all (\<lambda>t. case t of TChar c \<Rightarrow> hex_digit c | _ \<Rightarrow> False) (take n ts)"

text \<open>
  \<open>_class_escape\<close>: an escape inside a character set. \<open>ts\<close> is the text after the escape.
  The numeric escapes (\<open>\x\<close>, \<open>\u\<close>, \<open>\U\<close> with all their digits, octal, \<open>\N\<close>) are not
  interpreted; an incomplete one is the error that \<open>re\<close> raises.
\<close>

definition class_escape :: "char \<Rightarrow> tok list \<Rightarrow> error + set_item" where
  "class_escape d ts =
     (if d = CHR ''a'' then Inr (LITERAL (CHR 0x07))
      else if d = CHR ''b'' then Inr (LITERAL (CHR 0x08))
      else if d = CHR ''f'' then Inr (LITERAL (CHR 0x0C))
      else if d = CHR ''n'' then Inr (LITERAL (CHR 0x0A))
      else if d = CHR ''r'' then Inr (LITERAL (CHR 0x0D))
      else if d = CHR ''t'' then Inr (LITERAL (CHR 0x09))
      else if d = CHR ''v'' then Inr (LITERAL (CHR 0x0B))
      else if d = CHR 0x5C then Inr (LITERAL (CHR 0x5C))
      else if d = CHR ''d'' then Inr (CATEGORY Digit)
      else if d = CHR ''D'' then Inr (CATEGORY NotDigit)
      else if d = CHR ''s'' then Inr (CATEGORY Space)
      else if d = CHR ''S'' then Inr (CATEGORY NotSpace)
      else if d = CHR ''w'' then Inr (CATEGORY Word)
      else if d = CHR ''W'' then Inr (CATEGORY NotWord)
      else if d = CHR ''x'' then (if hex_follow 2 ts then Inl OutsideFragment else Inl RegexError)
      else if d = CHR ''u'' then (if hex_follow 4 ts then Inl OutsideFragment else Inl RegexError)
      else if d = CHR ''U'' then (if hex_follow 8 ts then Inl OutsideFragment else Inl RegexError)
      else if d = CHR ''N'' then Inl OutsideFragment
      else if ascii_digit d then Inl OutsideFragment
      else if ascii_letter d then Inl RegexError
      else Inr (LITERAL d))"

text \<open>The code of one member of a character set: an escape or the character itself.\<close>

fun set_code :: "tok \<Rightarrow> tok list \<Rightarrow> error + set_item" where
  "set_code (TChar c) ts = Inr (LITERAL c)"
| "set_code (TEsc d) ts = class_escape d ts"
| "set_code TBad ts = Inl RegexError"

text \<open>
  The loop of the parser over the members of a character set, entered after \<open>[\<close> and an
  optional \<open>^\<close>. \<open>items\<close> is the set so far; the result is the set and the text after the
  closing bracket. A \<open>]\<close> closes the set unless it is its first member; a \<open>-\<close> after a
  member starts a range unless the bracket follows it.
\<close>

fun parse_set :: "set_item list \<Rightarrow> tok list \<Rightarrow> error + (set_item list \<times> tok list)" where
  "parse_set items [] = Inl RegexError"
| "parse_set items (this # ts) =
     (if this = TChar CHR '']'' \<and> items \<noteq> [] then Inr (items, ts)
      else case set_code this ts of
        Inl e \<Rightarrow> Inl e
      | Inr code1 \<Rightarrow>
          (case ts of
             TChar c # ts' \<Rightarrow>
               if c = CHR ''-'' then
                 (case ts' of
                    [] \<Rightarrow> Inl RegexError
                  | that # ts'' \<Rightarrow>
                      if that = TChar CHR '']'' then Inr (items @ [code1, LITERAL CHR ''-''], ts'')
                      else (case set_code that ts'' of
                              Inl e \<Rightarrow> Inl e
                            | Inr code2 \<Rightarrow>
                                (case (code1, code2) of
                                   (LITERAL lo, LITERAL hi) \<Rightarrow>
                                     if hi < lo then Inl RegexError
                                     else parse_set (items @ [RANGE lo hi]) ts''
                                 | _ \<Rightarrow> Inl RegexError)))
               else parse_set (items @ [code1]) ts
           | _ \<Rightarrow> parse_set (items @ [code1]) ts))"

lemma parse_set_shorter:
  "parse_set items ts = Inr (s, r) \<Longrightarrow> length r < length ts"
proof (induction "length ts" arbitrary: items ts rule: less_induct)
  case less
  obtain this ts0 where ts: "ts = this # ts0"
    using less.prems by (cases ts) auto
  note P = less.prems[unfolded ts parse_set.simps(2)]
  show ?case
  proof (cases "this = TChar CHR '']'' \<and> items \<noteq> []")
    case True
    with P ts show ?thesis by (auto simp del: parse_set.simps)
  next
    case False
    then obtain code1 where c1: "set_code this ts0 = Inr code1"
      using P by (auto split: sum.splits simp del: parse_set.simps)
    have plain: "parse_set (items @ [code1]) ts0 = Inr (s, r) \<Longrightarrow> ?thesis"
      using less.hyps[of ts0 "items @ [code1]"] ts by simp
    show ?thesis
    proof (cases "\<exists>ts'. ts0 = TChar CHR ''-'' # ts'")
      case no: False
      have "parse_set (items @ [code1]) ts0 = Inr (s, r)"
        using P False c1 no
        by (auto split: list.splits tok.splits if_splits simp del: parse_set.simps)
      then show ?thesis by (rule plain)
    next
      case True
      then obtain ts' where ts0: "ts0 = TChar CHR ''-'' # ts'" by blast
      then obtain that ts'' where ts': "ts' = that # ts''"
        using P False c1 by (cases ts') (auto simp del: parse_set.simps)
      show ?thesis
      proof (cases "that = TChar CHR '']''")
        case True
        then show ?thesis using P ts False c1 ts0 ts' by (auto simp del: parse_set.simps)
      next
        case nb: False
        then obtain lo hi where "parse_set (items @ [RANGE lo hi]) ts'' = Inr (s, r)"
          using P False c1 ts0 ts'
          by (auto split: sum.splits set_item.splits if_splits simp del: parse_set.simps)
        then have "length r < length ts''"
          using less.hyps[of ts'' "items @ [RANGE lo hi]"] ts ts0 ts' by simp
        then show ?thesis using ts ts0 ts' by simp
      qed
    qed
  qed
qed

lemma parse_set_rest_bound:
  "parse_set [] (if negate then tl ts else ts) = Inr (items, rest) \<Longrightarrow>
   length rest < Suc (length ts)"
proof -
  assume "parse_set [] (if negate then tl ts else ts) = Inr (items, rest)"
  then have "length rest < length (if negate then tl ts else ts)"
    by (rule parse_set_shorter)
  then show ?thesis
    by (simp split: if_splits)
qed

text \<open>
  The parser outside a character set. \<open>cur\<close> is the branch being read and \<open>alts\<close> the
  branches before it, separated by \<open>|\<close>. The characters that open a group or repeat an
  item are not interpreted; \<open>re.escape\<close> never leaves them in pattern text unescaped. A
  \<open>{\<close> that no digit or comma follows is the character itself.
\<close>

function parse_top :: "atom list \<Rightarrow> atom list list \<Rightarrow> tok list \<Rightarrow> error + regex" where
  "parse_top cur alts [] = Inr (alts @ [cur])"
| "parse_top cur alts (TBad # ts) = Inl RegexError"
| "parse_top cur alts (TEsc d # ts) =
     (if ascii_letter d \<or> ascii_digit d then Inl OutsideFragment
      else parse_top (cur @ [LIT d]) alts ts)"
| "parse_top cur alts (TChar c # ts) =
     (if c = CHR ''|'' then parse_top [] (alts @ [cur]) ts
      else if c = CHR ''^'' then parse_top (cur @ [AT_BEGINNING]) alts ts
      else if c = CHR ''$'' then parse_top (cur @ [AT_END]) alts ts
      else if c = CHR ''.'' then parse_top (cur @ [ANY]) alts ts
      else if c = CHR ''['' then
        (let negate = (case ts of t # _ \<Rightarrow> t = TChar CHR ''^'' | [] \<Rightarrow> False)
         in case parse_set [] (if negate then tl ts else ts) of
              Inl e \<Rightarrow> Inl e
            | Inr (items, rest) \<Rightarrow> parse_top (cur @ [IN_SET negate items]) alts rest)
      else if c \<in> set ''()*+?'' then Inl OutsideFragment
      else if c = CHR ''{'' \<and>
              (case ts of TChar d # _ \<Rightarrow> ascii_digit d \<or> d = CHR '','' | _ \<Rightarrow> False)
        then Inl OutsideFragment
      else parse_top (cur @ [LIT c]) alts ts)"
  by pat_completeness auto
termination
  by (relation "measure (\<lambda>(cur, alts, ts). length ts)")
     (auto dest: parse_set_rest_bound)

text \<open>\<open>re.compile\<close>: the pattern text is read into its branches.\<close>

definition re_compile :: "string \<Rightarrow> error + regex" where
  "re_compile pattern = parse_top [] [] (tokenize pattern)"

text \<open>
  The categories on the modelled characters: \<open>\d\<close> is a digit, \<open>\s\<close> is white space
  (the characters 9 to 13 and 28 to 32), \<open>\w\<close> is a letter, a digit or the underscore.
\<close>

fun in_category :: "category \<Rightarrow> char \<Rightarrow> bool" where
  "in_category Digit c = ascii_digit c"
| "in_category NotDigit c = (\<not> ascii_digit c)"
| "in_category Space c =
     ((CHR 0x09 \<le> c \<and> c \<le> CHR 0x0D) \<or> (CHR 0x1C \<le> c \<and> c \<le> CHR 0x20))"
| "in_category NotSpace c =
     (\<not> ((CHR 0x09 \<le> c \<and> c \<le> CHR 0x0D) \<or> (CHR 0x1C \<le> c \<and> c \<le> CHR 0x20)))"
| "in_category Word c = (ascii_letter c \<or> ascii_digit c \<or> c = CHR ''_'')"
| "in_category NotWord c = (\<not> (ascii_letter c \<or> ascii_digit c \<or> c = CHR ''_''))"

fun item_accepts :: "set_item \<Rightarrow> char \<Rightarrow> bool" where
  "item_accepts (LITERAL d) c = (c = d)"
| "item_accepts (RANGE lo hi) c = (lo \<le> c \<and> c \<le> hi)"
| "item_accepts (CATEGORY k) c = in_category k c"

text \<open>
  Whether an item that consumes a character accepts \<open>c\<close>. The dot accepts every
  character but the newline; a negated set accepts what none of its members accepts.
\<close>

fun atom_accepts :: "atom \<Rightarrow> char \<Rightarrow> bool" where
  "atom_accepts ANY c = (c \<noteq> CHR 0x0A)"
| "atom_accepts (LIT d) c = (c = d)"
| "atom_accepts (IN_SET negate items) c = (list_ex (\<lambda>i. item_accepts i c) items \<noteq> negate)"
| "atom_accepts AT_BEGINNING c = False"
| "atom_accepts AT_END c = False"

text \<open>
  One branch against the text \<open>s\<close> that remains; \<open>start\<close> says that nothing has been
  consumed. \<open>^\<close> holds at the start of the string only, \<open>$\<close> at its end and before a
  newline that ends it. The branch need not consume all of \<open>s\<close>, as in \<open>regex.match\<close>.
\<close>

fun match_here :: "bool \<Rightarrow> atom list \<Rightarrow> string \<Rightarrow> bool" where
  "match_here start [] s = True"
| "match_here start (AT_BEGINNING # as) s = (start \<and> match_here start as s)"
| "match_here start (AT_END # as) s = ((s = [] \<or> s = [CHR 0x0A]) \<and> match_here start as s)"
| "match_here start (a # as) [] = False"
| "match_here start (a # as) (c # cs) = (atom_accepts a c \<and> match_here False as cs)"

text \<open>\<open>bool(regex.match(w))\<close>: some branch matches at the start of \<open>w\<close>.\<close>

definition re_match :: "regex \<Rightarrow> string \<Rightarrow> bool" where
  "re_match r w = list_ex (\<lambda>branch. match_here True branch w) r"

subsection \<open>The engine's state and \<open>_get_candidates\<close>\<close>

record wheel_ai =
  vowel_cost :: rat
  vowels :: "char list"
  corpus :: "string list"

text \<open>The list that \<open>_load_dictionary\<close> returns when the dictionary file cannot be read.\<close>

definition fallback_corpus :: "string list" where
  "fallback_corpus =
     [''APPLE'', ''BANANA'', ''PYTHON'', ''COMPUTER'', ''ALGORITHM'',
      ''ORANGE'', ''GRAPE'', ''CHERRY'', ''STRAWBERRY'', ''MOONLIGHT'',
      ''SUNSHINE'', ''TELEPHONE'', ''JOURNEY'', ''DATABASE'', ''KEYBOARD'']"

text \<open>
  \<open>WheelAI()\<close> with the default \<open>vowel_cost\<close> and no dictionary file; \<open>vs\<close> is the order
  in which the process iterates over \<open>set("AEIOU")\<close>.
\<close>

definition default_ai :: "char list \<Rightarrow> wheel_ai" where
  "default_ai vs = \<lparr>vowel_cost = 250, vowels = vs, corpus = fallback_corpus\<rparr>"

text \<open>The fixed content of \<open>self.vowels\<close>, in whatever order.\<close>

definition vowels_ok :: "wheel_ai \<Rightarrow> bool" where
  "vowels_ok ai \<longleftrightarrow> distinct (vowels ai) \<and> set (vowels ai) = set ''AEIOU''"

definition get_candidates :: "wheel_ai \<Rightarrow> string \<Rightarrow> char set \<Rightarrow> error + string list" where
  "get_candidates ai board_pattern used_letters =
     (case re_compile (generate_regex board_pattern used_letters) of
        Inl e \<Rightarrow> Inl e
      | Inr regex \<Rightarrow> Inr (filter (re_match regex) (corpus ai)))"

subsection \<open>Dictionaries\<close>

text \<open>
  \<open>d[k] = v\<close> is \<open>AList.update k v d\<close>: a key that is present keeps its place, a new key
  goes to the end. A \<open>Counter\<close> reads a missing key as 0.
\<close>

definition counter_get :: "(char \<times> nat) list \<Rightarrow> char \<Rightarrow> nat" where
  "counter_get counts v = (case map_of counts v of None \<Rightarrow> 0 | Some n \<Rightarrow> n)"

definition counter_incr :: "(char \<times> nat) list \<Rightarrow> char \<Rightarrow> (char \<times> nat) list" where
  "counter_incr counts v = AList.update v (counter_get counts v + 1) counts"

text \<open>
  \<open>max(d, key=d.get)\<close>: the first key, in the dictionary's order, whose value no other
  value exceeds; \<open>ValueError\<close> on an empty dictionary.
\<close>

fun max_from :: "char \<times> rat \<Rightarrow> (char \<times> rat) list \<Rightarrow> char" where
  "max_from best [] = fst best"
| "max_from best (kv # kvs) = (if snd kv > snd best then max_from kv kvs else max_from best kvs)"

definition max_key :: "(char \<times> rat) list \<Rightarrow> error + char" where
  "max_key d = (case d of [] \<Rightarrow> Inl ValueError | kv # kvs \<Rightarrow> Inr (max_from kv kvs))"

text \<open>\<open>d[k]\<close>, which raises \<open>KeyError\<close> on a missing key.\<close>

definition dict_item :: "(char \<times> rat) list \<Rightarrow> char \<Rightarrow> error + rat" where
  "dict_item d k = (case map_of d k of None \<Rightarrow> Inl KeyError | Some v \<Rightarrow> Inr v)"

subsection \<open>\<open>_vowel_probabilities\<close> and \<open>_fallback_stats\<close>\<close>

text \<open>The inner loop \<open>for v in self.vowels\<close> for one candidate \<open>w\<close>.\<close>

definition count_word :: "char list \<Rightarrow> char set \<Rightarrow> (char \<times> nat) list \<Rightarrow> string \<Rightarrow> (char \<times> nat) list" where
  "count_word vs used_letters counts w =
     foldl (\<lambda>counts v. if v \<notin> used_letters \<and> v \<in> set w then counter_incr counts v else counts)
       counts vs"

definition vowel_probabilities :: "wheel_ai \<Rightarrow> string list \<Rightarrow> char set \<Rightarrow> (char \<times> rat) list" where
  "vowel_probabilities ai candidates used_letters =
     (if candidates = [] then []
      else
        let counts = foldl (count_word (vowels ai) used_letters) [] candidates;
            total = length candidates
        in map (\<lambda>v. (v, of_nat (counter_get counts v) / of_nat total)) (map fst counts))"

definition general_vowel_freq :: "(char \<times> rat) list" where
  "general_vowel_freq =
     [(CHR ''A'', 82 / 1000), (CHR ''E'', 127 / 1000), (CHR ''I'', 70 / 1000),
      (CHR ''O'', 75 / 1000), (CHR ''U'', 28 / 1000)]"

text \<open>\<open>self.general_vowel_freq.get(v, 0.05)\<close>.\<close>

definition vowel_freq :: "char \<Rightarrow> rat" where
  "vowel_freq v = (case map_of general_vowel_freq v of None \<Rightarrow> 5 / 100 | Some f \<Rightarrow> f)"

text \<open>\<open>info_need\<close> of \<open>_fallback_stats\<close>, from the pattern without its spaces.\<close>

definition info_need :: "string \<Rightarrow> rat" where
  "info_need clean =
     (let blanks = count_list clean CHR ''_'';
          total = length clean;
          density = of_int (int total - int blanks) / of_int (int total)
      in 1 - density)"

definition fallback_stats :: "wheel_ai \<Rightarrow> string \<Rightarrow> char set \<Rightarrow> (char \<times> rat) list" where
  "fallback_stats ai board_pattern used_letters =
     (let clean = remove_spaces board_pattern in
      if length clean = 0 then []
      else
        foldl (\<lambda>scores v.
                 if v \<in> used_letters then scores
                 else AList.update v (vowel_freq v * info_need clean * 2) scores)
          [] (vowels ai))"

subsection \<open>The decision engine: \<open>should_buy_vowel\<close>\<close>

text \<open>
  The \<open>reason\<close> of a recommendation is one of eight messages; two of them show the
  confidence as a percentage, which is kept here as the number itself.
\<close>

datatype reason_text =
    InsufficientMoney
  | NoVowelsInCandidates
  | HighProbability rat
  | AggressiveStrategy
  | LowProbability rat
  | NoValidVowels
  | FallbackSparse
  | FallbackLowValue

record recommendation =
  decision :: bool
  suggested_vowel :: "char option"
  reason :: reason_text
  strategy :: string
  confidence :: rat

definition should_buy_vowel ::
  "wheel_ai \<Rightarrow> string \<Rightarrow> char set \<Rightarrow> rat \<Rightarrow> error + recommendation" where
  "should_buy_vowel ai board_pattern used_letters current_money =
     (if current_money < vowel_cost ai then
        Inr \<lparr>decision = False, suggested_vowel = None, reason = InsufficientMoney,
             strategy = ''Finance'', confidence = 1\<rparr>
      else case get_candidates ai board_pattern used_letters of
        Inl e \<Rightarrow> Inl e
      | Inr candidates \<Rightarrow>
          if candidates \<noteq> [] then
            (let probs = vowel_probabilities ai candidates used_letters in
             if probs = [] then
               Inr \<lparr>decision = False, suggested_vowel = None, reason = NoVowelsInCandidates,
                    strategy = ''Pattern Matching'', confidence = 9 / 10\<rparr>
             else case max_key probs of
               Inl e \<Rightarrow> Inl e
             | Inr best_vowel \<Rightarrow>
                 (case dict_item probs best_vowel of
                    Inl e \<Rightarrow> Inl e
                  | Inr conf \<Rightarrow>
                      if conf \<ge> 70 / 100 then
                        Inr \<lparr>decision = True, suggested_vowel = Some best_vowel,
                             reason = HighProbability conf,
                             strategy = ''Pattern Matching'', confidence = conf\<rparr>
                      else if current_money > 2000 \<and> conf > 40 / 100 then
                        Inr \<lparr>decision = True, suggested_vowel = Some best_vowel,
                             reason = AggressiveStrategy,
                             strategy = ''Pattern Matching (Aggressive)'', confidence = conf\<rparr>
                      else
                        Inr \<lparr>decision = False, suggested_vowel = Some best_vowel,
                             reason = LowProbability conf,
                             strategy = ''Pattern Matching'', confidence = conf\<rparr>))
          else
            (let fallback = fallback_stats ai board_pattern used_letters in
             if fallback = [] then
               Inr \<lparr>decision = False, suggested_vowel = None, reason = NoValidVowels,
                    strategy = ''Fallback'', confidence = 1\<rparr>
             else case max_key fallback of
               Inl e \<Rightarrow> Inl e
             | Inr best_vowel \<Rightarrow>
                 (case dict_item fallback best_vowel of
                    Inl e \<Rightarrow> Inl e
                  | Inr score \<Rightarrow>
                      if score > 15 / 100 then
                        Inr \<lparr>decision = True, suggested_vowel = Some best_vowel,
                             reason = FallbackSparse,
                             strategy = ''Fallback'', confidence = score\<rparr>
                      else
                        Inr \<lparr>decision = False, suggested_vowel = Some best_vowel,
                             reason = FallbackLowValue,
                             strategy = ''Fallback'', confidence = score\<rparr>)))"

subsection \<open>The candidate predicate in the words of the specification\<close>

text \<open>
  The specification describes the candidate filter without regular expressions: a word
  is a candidate when it is as long as the normalized pattern, agrees with it at every
  position that is not a blank, and has at every blank a character that is not in
  \<open>excluded\<close>, the revealed letters together with the used letters that are not revealed.
  This definition follows those words, to be compared with \<open>get_candidates\<close>.
\<close>

definition spec_predicate :: "string \<Rightarrow> char set \<Rightarrow> string \<Rightarrow> bool" where
  "spec_predicate board_pattern used_letters w =
     (let clean = upper (remove_spaces board_pattern);
          revealed = set (filter isalpha clean);
          excluded = revealed \<union> (used_letters - revealed)
      in list_all2 (\<lambda>p c. if p = CHR ''_'' then c \<notin> excluded else c = p) clean w)"

text \<open>
  The information need in the words of the specification: one minus the share of the
  pattern's characters that are not blanks, where every character of the pattern, spaces
  and punctuation included, counts toward the length and, unless it is a blank, as
  filled. To be compared with \<open>info_need\<close>.
\<close>

definition spec_info_need :: "string \<Rightarrow> rat" where
  "spec_info_need board_pattern =
     1 - of_nat (length (filter (\<lambda>c. c \<noteq> CHR ''_'') board_pattern)) / of_nat (length board_pattern)"

subsection \<open>The compiled form of a board pattern\<close>

text \<open>
  What the pattern text is meant to compile to, used to state and prove that it does:
  the text of the character set, the tokens of one piece of pattern text, the item that
  one character of the normalized pattern stands for, and the sets of characters that
  hold none of backslash, closing bracket and hyphen, the three characters that have a
  meaning inside a character set.
\<close>

definition exclusion_text :: "char set \<Rightarrow> string" where
  "exclusion_text excluded =
     (if excluded \<noteq> {} then ''[^'' @ sorted_list_of_set excluded @ '']'' else ''.'')"

definition piece_toks :: "string \<Rightarrow> char \<Rightarrow> tok list" where
  "piece_toks exclusion c =
     (if c = CHR ''_'' then map TChar exclusion
      else if isalpha c then [TChar c]
      else if c \<in> set special_chars then [TEsc c]
      else [TChar c])"

definition board_atom :: "char set \<Rightarrow> char \<Rightarrow> atom" where
  "board_atom excluded c =
     (if c = CHR ''_'' then
        (if excluded \<noteq> {} then IN_SET True (map LITERAL (sorted_list_of_set excluded)) else ANY)
      else LIT c)"

definition plain_chars :: "char set \<Rightarrow> bool" where
  "plain_chars S \<longleftrightarrow> CHR 0x5C \<notin> S \<and> CHR '']'' \<notin> S \<and> CHR ''-'' \<notin> S"

section \<open>Properties of the engine\<close>

subsection \<open>The finance gate\<close>

text \<open>
  C2. Whatever the board pattern and the used letters are, a call with
  \<open>current_money < vowel_cost\<close> returns decision False, no suggested vowel, strategy
  "Finance" and confidence 1.0. The result is one fixed record: neither the corpus nor
  the pattern is consulted, and the pattern compiler, which can fail, is not reached.
\<close>

theorem finance_gate:
  assumes "current_money < vowel_cost ai"
  shows "should_buy_vowel ai board_pattern used_letters current_money =
           Inr \<lparr>decision = False, suggested_vowel = None, reason = InsufficientMoney,
                strategy = ''Finance'', confidence = 1\<rparr>"
  using assms by (simp add: should_buy_vowel_def)

theorem finance_gate_witness:
  "(100::rat) < vowel_cost (default_ai ''AEIOU'') \<and>
   should_buy_vowel (default_ai ''AEIOU'') ''_'' {CHR 0x5C} 100 =
     Inr \<lparr>decision = False, suggested_vowel = None, reason = InsufficientMoney,
          strategy = ''Finance'', confidence = 1\<rparr>"
proof -
  have h: "(100::rat) < vowel_cost (default_ai ''AEIOU'')"
    by (simp add: default_ai_def)
  show ?thesis
    using h finance_gate [OF h, of "''_''" "{CHR 0x5C}"] by simp
qed

text \<open>
  C7. With the pattern and the used letters fixed and \<open>m1 < vowel_cost \<le> m2\<close>, the call
  with \<open>m1\<close> returns a rejection with strategy "Finance", and the call with \<open>m2\<close> does not
  return a recommendation with strategy "Finance": its outcome is a recommendation of
  another strategy or, when the pattern compiler fails, an exception.
\<close>

theorem finance_monotone:
  assumes "m1 < vowel_cost ai" and "vowel_cost ai \<le> m2"
  shows "(\<exists>r. should_buy_vowel ai board_pattern used_letters m1 = Inr r \<and>
              \<not> decision r \<and> strategy r = ''Finance'') \<and>
         (\<forall>r. should_buy_vowel ai board_pattern used_letters m2 = Inr r \<longrightarrow>
              strategy r \<noteq> ''Finance'')"
proof
  show "\<exists>r. should_buy_vowel ai board_pattern used_letters m1 = Inr r \<and>
            \<not> decision r \<and> strategy r = ''Finance''"
    using assms(1) by (simp add: should_buy_vowel_def)
next
  have "\<not> m2 < vowel_cost ai"
    using assms(2) by simp
  then show "\<forall>r. should_buy_vowel ai board_pattern used_letters m2 = Inr r \<longrightarrow>
                 strategy r \<noteq> ''Finance''"
    by (auto simp: should_buy_vowel_def Let_def split: if_splits sum.splits)
qed

theorem finance_monotone_witness:
  "(100::rat) < vowel_cost (default_ai ''AEIOU'') \<and>
   vowel_cost (default_ai ''AEIOU'') \<le> (1000::rat) \<and>
   (\<exists>r. should_buy_vowel (default_ai ''AEIOU'') ''_ P P L E''
           {CHR ''P'', CHR ''L'', CHR ''E''} 100 = Inr r \<and>
        \<not> decision r \<and> strategy r = ''Finance'') \<and>
   should_buy_vowel (default_ai ''AEIOU'') ''_ P P L E'' {CHR ''P'', CHR ''L'', CHR ''E''} 1000 =
     Inr \<lparr>decision = True, suggested_vowel = Some CHR ''A'', reason = HighProbability 1,
          strategy = ''Pattern Matching'', confidence = 1\<rparr> \<and>
   strategy \<lparr>decision = True, suggested_vowel = Some CHR ''A'', reason = HighProbability 1,
          strategy = ''Pattern Matching'', confidence = 1\<rparr> \<noteq> ''Finance''"
proof -
  have h1: "(100::rat) < vowel_cost (default_ai ''AEIOU'')"
    by (simp add: default_ai_def)
  have h2: "vowel_cost (default_ai ''AEIOU'') \<le> (1000::rat)"
    by (simp add: default_ai_def)
  have e: "should_buy_vowel (default_ai ''AEIOU'') ''_ P P L E''
             {CHR ''P'', CHR ''L'', CHR ''E''} 1000 =
           Inr \<lparr>decision = True, suggested_vowel = Some CHR ''A'', reason = HighProbability 1,
                strategy = ''Pattern Matching'', confidence = 1\<rparr>"
    by code_simp
  show ?thesis
    using h1 h2 e
      finance_monotone [OF h1 h2, of "''_ P P L E''" "{CHR ''P'', CHR ''L'', CHR ''E''}"]
    by blast
qed

subsection \<open>The pattern compiler on characters that \<open>re\<close> reads as syntax\<close>

text \<open>
  When \<open>used_letters\<close> holds no backslash, closing bracket or hyphen (so, whenever it
  holds letters only), the pattern text compiles to one branch with one item per
  character of the normalized pattern, and on a corpus whose words contain no newline
  the candidates are the corpus words that satisfy the predicate of the specification,
  in corpus order.
\<close>

lemma tokenize_plain: "c \<noteq> CHR 0x5C \<Longrightarrow> tokenize (c # rest) = TChar c # tokenize rest"
  by (cases rest) simp_all

lemma tokenize_plain_list:
  "CHR 0x5C \<notin> set s \<Longrightarrow> tokenize (s @ rest) = map TChar s @ tokenize rest"
  by (induction s) (auto simp: tokenize_plain)

lemma isalpha_not_backslash: "isalpha c \<Longrightarrow> c \<noteq> CHR 0x5C"
  by (auto simp: isalpha_def ascii_letter_def)

lemma tokenize_regex_body:
  assumes "CHR 0x5C \<notin> set exclusion"
  shows "tokenize (regex_body exclusion clean @ rest) =
           concat (map (piece_toks exclusion) clean) @ tokenize rest"
proof (induction clean)
  case Nil
  show ?case by simp
next
  case (Cons c cs)
  show ?case
  proof (cases "c = CHR ''_''")
    case True
    then show ?thesis
      using Cons assms by (simp add: piece_toks_def tokenize_plain_list)
  next
    case False
    show ?thesis
    proof (cases "isalpha c")
      case True
      then show ?thesis
        using False Cons by (simp add: piece_toks_def tokenize_plain isalpha_not_backslash)
    next
      case na: False
      show ?thesis
      proof (cases "c \<in> set special_chars")
        case True
        then show ?thesis
          using False na Cons by (simp add: piece_toks_def re_escape_def)
      next
        case False
        then have "c \<noteq> CHR 0x5C"
          by (auto simp: special_chars_def)
        then show ?thesis
          using False na \<open>c \<noteq> CHR ''_''\<close> Cons
          by (simp add: piece_toks_def re_escape_def tokenize_plain)
      qed
    qed
  qed
qed

lemma parse_top_literal:
  "c \<notin> set ''|^$.[()*+?{'' \<Longrightarrow>
   parse_top cur alts (TChar c # ts) = parse_top (cur @ [LIT c]) alts ts"
  by simp

lemma isalpha_not_syntax: "isalpha c \<Longrightarrow> c \<notin> set ''|^$.[()*+?{''"
  by (auto simp: isalpha_def ascii_letter_def)

lemma special_not_alnum: "c \<in> set special_chars \<Longrightarrow> \<not> ascii_letter c \<and> \<not> ascii_digit c"
  by (auto simp: special_chars_def ascii_letter_def ascii_digit_def)

lemma syntax_special: "c \<notin> set special_chars \<Longrightarrow> c \<notin> set ''|^$.[()*+?{''"
  by (auto simp: special_chars_def)

lemma parse_set_plain:
  assumes "CHR 0x5C \<notin> set body" "CHR '']'' \<notin> set body" "CHR ''-'' \<notin> set body"
    and "items \<noteq> [] \<or> body \<noteq> []"
  shows "parse_set items (map TChar body @ TChar CHR '']'' # rest) =
           Inr (items @ map LITERAL body, rest)"
  using assms
proof (induction body arbitrary: items)
  case Nil
  then show ?case by simp
next
  case (Cons c cs)
  have c: "c \<noteq> CHR '']''" using Cons.prems by auto
  have step: "parse_set items (TChar c # map TChar cs @ TChar CHR '']'' # rest) =
              parse_set (items @ [LITERAL c]) (map TChar cs @ TChar CHR '']'' # rest)"
    using c Cons.prems(3) by (cases cs) (auto simp del: parse_set.simps simp add: parse_set.simps(2)[of items "TChar c"])
  show ?case
    using step Cons.IH[of "items @ [LITERAL c]"] Cons.prems by (simp del: parse_set.simps)
qed

lemma exclusion_text_no_backslash: "plain_chars ex \<Longrightarrow> CHR 0x5C \<notin> set (exclusion_text ex)"
  by (simp add: exclusion_text_def plain_chars_def)

lemma parse_top_pieces:
  assumes "plain_chars ex"
  shows "parse_top cur alts
           (concat (map (piece_toks (exclusion_text ex)) clean) @ [TChar CHR ''$'']) =
         Inr (alts @ [cur @ map (board_atom ex) clean @ [AT_END]])"
proof (induction clean arbitrary: cur)
  case Nil
  show ?case by simp
next
  case (Cons c cs)
  let ?rest = "concat (map (piece_toks (exclusion_text ex)) cs) @ [TChar CHR ''$'']"
  have goal: "parse_top cur alts (piece_toks (exclusion_text ex) c @ ?rest) =
              parse_top (cur @ [board_atom ex c]) alts ?rest"
  proof (cases "c = CHR ''_''")
    case blank: True
    show ?thesis
    proof (cases "ex = {}")
      case True
      then show ?thesis
        using blank by (simp add: piece_toks_def exclusion_text_def board_atom_def)
    next
      case False
      let ?body = "sorted_list_of_set ex"
      have body: "?body \<noteq> []" "CHR 0x5C \<notin> set ?body" "CHR '']'' \<notin> set ?body"
        "CHR ''-'' \<notin> set ?body"
        using False assms by (simp_all add: plain_chars_def)
      have set: "parse_set [] (map TChar ?body @ TChar CHR '']'' # ?rest) =
                 Inr ([] @ map LITERAL ?body, ?rest)"
        using body by (intro parse_set_plain) simp_all
      show ?thesis
        using blank False set
        by (simp add: piece_toks_def exclusion_text_def board_atom_def del: parse_set.simps)
    qed
  next
    case False
    show ?thesis
    proof (cases "isalpha c")
      case True
      then show ?thesis
        using False isalpha_not_syntax[OF True]
        by (simp add: piece_toks_def board_atom_def parse_top_literal del: parse_top.simps)
    next
      case na: False
      show ?thesis
      proof (cases "c \<in> set special_chars")
        case True
        then show ?thesis
          using False na special_not_alnum[OF True]
          by (simp add: piece_toks_def board_atom_def)
      next
        case ns: False
        then show ?thesis
          using False na syntax_special[OF ns]
          by (simp add: piece_toks_def board_atom_def parse_top_literal del: parse_top.simps)
      qed
    qed
  qed
  show ?case
    using goal Cons.IH[of "cur @ [board_atom ex c]"] by simp
qed

lemma re_compile_plain:
  assumes "plain_chars ex"
  shows "re_compile (''^'' @ regex_body (exclusion_text ex) clean @ ''$'') =
           Inr [AT_BEGINNING # map (board_atom ex) clean @ [AT_END]]"
proof -
  have "tokenize (''^'' @ regex_body (exclusion_text ex) clean @ ''$'') =
        TChar CHR ''^'' # concat (map (piece_toks (exclusion_text ex)) clean) @ [TChar CHR ''$'']"
    using tokenize_regex_body[OF exclusion_text_no_backslash[OF assms], of clean "''$''"]
    by (simp add: tokenize_plain)
  then show ?thesis
    using parse_top_pieces[OF assms, of "[AT_BEGINNING]" "[]" clean]
    by (simp add: re_compile_def del: parse_top.simps add: parse_top.simps(4)[of _ _ "CHR ''^''"])
qed

lemma match_board:
  assumes "CHR 0x0A \<notin> set w"
  shows "match_here start (map (board_atom ex) clean @ [AT_END]) w \<longleftrightarrow>
         list_all2 (\<lambda>p c. if p = CHR ''_'' then c \<notin> ex else c = p) clean w"
  using assms
proof (induction clean arbitrary: w start)
  case Nil
  then show ?case by (cases w) auto
next
  case (Cons p ps)
  show ?case
  proof (cases w)
    case Nil
    then show ?thesis by (simp add: board_atom_def)
  next
    case w: (Cons c cs)
    have acc: "atom_accepts (board_atom ex p) c \<longleftrightarrow> (if p = CHR ''_'' then c \<notin> ex else c = p)"
      using Cons.prems w
      by (auto simp: board_atom_def list_ex_iff)
    have "match_here start (board_atom ex p # map (board_atom ex) ps @ [AT_END]) (c # cs) \<longleftrightarrow>
          atom_accepts (board_atom ex p) c \<and>
          match_here False (map (board_atom ex) ps @ [AT_END]) cs"
      by (simp add: board_atom_def)
    then show ?thesis
      using acc w Cons.prems Cons.IH[of cs False] by simp
  qed
qed


lemma isalpha_plain: "plain_chars (set (filter isalpha s))"
  by (auto simp: plain_chars_def isalpha_def ascii_letter_def)

lemma excluded_plain:
  "plain_chars used \<Longrightarrow> plain_chars (set (filter isalpha s) \<union> (used - set (filter isalpha s)))"
  using isalpha_plain[of s] by (auto simp: plain_chars_def)

lemma generate_regex_text:
  "generate_regex board used =
     (let clean = upper (remove_spaces board);
          ex = set (filter isalpha clean) \<union> (used - set (filter isalpha clean))
      in ''^'' @ regex_body (exclusion_text ex) clean @ ''$'')"
  unfolding generate_regex_def exclusion_text_def Let_def ..

lemma candidates_on_plain_letters:
  assumes "plain_chars used_letters"
    and "\<forall>w \<in> set (corpus ai). CHR 0x0A \<notin> set w"
  shows "get_candidates ai board_pattern used_letters =
           Inr (filter (spec_predicate board_pattern used_letters) (corpus ai))"
proof -
  let ?clean = "upper (remove_spaces board_pattern)"
  let ?ex = "set (filter isalpha ?clean) \<union> (used_letters - set (filter isalpha ?clean))"
  have c: "re_compile (generate_regex board_pattern used_letters) =
           Inr [AT_BEGINNING # map (board_atom ?ex) ?clean @ [AT_END]]"
    using re_compile_plain[OF excluded_plain[OF assms(1)], of ?clean ?clean]
    by (simp add: generate_regex_text Let_def)
  have m: "re_match [AT_BEGINNING # map (board_atom ?ex) ?clean @ [AT_END]] w =
           spec_predicate board_pattern used_letters w" if "w \<in> set (corpus ai)" for w
    using that assms(2) match_board[of w True ?ex ?clean]
    by (simp add: re_match_def spec_predicate_def Let_def)
  have "filter (re_match [AT_BEGINNING # map (board_atom ?ex) ?clean @ [AT_END]]) (corpus ai) =
        filter (spec_predicate board_pattern used_letters) (corpus ai)"
    using m by (intro filter_cong) simp_all
  then show ?thesis
    using c by (simp add: get_candidates_def)
qed

text \<open>
  C1 says that every call returns a recommendation, also when \<open>used_letters\<close> holds
  characters that are not letters. \<open>_generate_regex\<close> passes the literal characters of
  the pattern through \<open>re.escape\<close> but writes the excluded characters into the
  character set as they are. With a backslash as the only used letter and one blank on
  the board the pattern text is \<open>^[^\]$\<close>: the backslash escapes the closing bracket,
  the set never ends, and \<open>re.compile\<close> raises \<open>re.error\<close> out of \<open>should_buy_vowel\<close>.
\<close>

theorem backslash_used_letter_raises:
  "should_buy_vowel (default_ai vs) ''_'' {CHR 0x5C} 250 = Inl RegexError"
  by code_simp

text \<open>
  C8 says that the candidates are the corpus words that satisfy the predicate of the
  specification, for every pattern and every set of used letters. With the used letters
  apostrophe, hyphen and Z the character set is \<open>[^'-Z]\<close>, which \<open>re\<close> reads as the
  range from the apostrophe to Z: every capital letter is excluded, and no word of the
  built-in corpus is a candidate, although APPLE and GRAPE satisfy the predicate.
\<close>

theorem hyphen_used_letter_drops_candidates:
  "get_candidates (default_ai vs) ''_____'' {CHR 0x27, CHR ''-'', CHR ''Z''} = Inr [] \<and>
   filter (spec_predicate ''_____'' {CHR 0x27, CHR ''-'', CHR ''Z''}) (corpus (default_ai vs)) =
     [''APPLE'', ''GRAPE'']"
  by code_simp

subsection \<open>Accepting recommendations carry a vowel\<close>

text \<open>
  C9. Whenever \<open>should_buy_vowel\<close> returns a recommendation with decision True, its
  suggested vowel is not None; a recommendation without a suggested vowel is a
  rejection.
\<close>

theorem decision_has_vowel:
  assumes "should_buy_vowel ai board_pattern used_letters current_money = Inr r"
  shows "(decision r \<longrightarrow> suggested_vowel r \<noteq> None) \<and>
         (suggested_vowel r = None \<longrightarrow> \<not> decision r)"
  using assms
  by (auto simp: should_buy_vowel_def Let_def split: if_splits sum.splits)

theorem decision_has_vowel_witness:
  "should_buy_vowel (default_ai ''AEIOU'') ''_ P P L E'' {CHR ''P'', CHR ''L'', CHR ''E''} 1000 =
     Inr \<lparr>decision = True, suggested_vowel = Some CHR ''A'', reason = HighProbability 1,
          strategy = ''Pattern Matching'', confidence = 1\<rparr> \<and>
   suggested_vowel \<lparr>decision = True, suggested_vowel = Some CHR ''A'',
          reason = HighProbability 1, strategy = ''Pattern Matching'', confidence = 1\<rparr> \<noteq> None"
proof -
  have e: "should_buy_vowel (default_ai ''AEIOU'') ''_ P P L E''
             {CHR ''P'', CHR ''L'', CHR ''E''} 1000 =
           Inr \<lparr>decision = True, suggested_vowel = Some CHR ''A'', reason = HighProbability 1,
                strategy = ''Pattern Matching'', confidence = 1\<rparr>"
    by code_simp
  show ?thesis
    using e decision_has_vowel [OF e] by simp
qed

subsection \<open>The vowel probability estimator\<close>

text \<open>
  The counter after the loops: its keys, their distinctness and its counts. The vowels
  are iterated without repetition, so a word adds at most one to a vowel's count.
\<close>

lemma counter_incr_keys: "fst ` set (counter_incr counts v) = insert v (fst ` set counts)"
  by (simp add: counter_incr_def AList.dom_update)

lemma counter_incr_distinct:
  "distinct (map fst counts) \<Longrightarrow> distinct (map fst (counter_incr counts v))"
  by (simp add: counter_incr_def AList.distinct_update)

lemma counter_get_incr:
  "counter_get (counter_incr counts v) u = (if u = v then counter_get counts v + 1 else counter_get counts u)"
  by (simp add: counter_incr_def counter_get_def AList.update_conv')

lemma count_word_keys:
  "fst ` set (count_word vs used counts w) =
     fst ` set counts \<union> {v \<in> set vs. v \<notin> used \<and> v \<in> set w}"
  unfolding count_word_def
  by (induction vs arbitrary: counts) (auto simp: counter_incr_keys)

lemma count_word_distinct:
  "distinct (map fst counts) \<Longrightarrow> distinct (map fst (count_word vs used counts w))"
  unfolding count_word_def
  by (induction vs arbitrary: counts) (auto simp: counter_incr_distinct)

lemma count_word_get:
  "distinct vs \<Longrightarrow>
   counter_get (count_word vs used counts w) u =
     counter_get counts u + (if u \<in> set vs \<and> u \<notin> used \<and> u \<in> set w then 1 else 0)"
  unfolding count_word_def
  by (induction vs arbitrary: counts) (auto simp: counter_get_incr)

lemma count_all_keys:
  "fst ` set (foldl (count_word vs used) counts ws) =
     fst ` set counts \<union> {v \<in> set vs. v \<notin> used \<and> (\<exists>w \<in> set ws. v \<in> set w)}"
  by (induction ws arbitrary: counts) (auto simp: count_word_keys)

lemma count_all_distinct:
  "distinct (map fst counts) \<Longrightarrow> distinct (map fst (foldl (count_word vs used) counts ws))"
  by (induction ws arbitrary: counts) (auto simp: count_word_distinct)

lemma count_all_get:
  "distinct vs \<Longrightarrow>
   counter_get (foldl (count_word vs used) counts ws) u =
     counter_get counts u +
       (if u \<in> set vs \<and> u \<notin> used then length (filter (\<lambda>w. u \<in> set w) ws) else 0)"
  by (induction ws arbitrary: counts) (auto simp: count_word_get)

lemma map_of_tabulate:
  "map_of (map (\<lambda>k. (k, f k)) ks) k = (if k \<in> set ks then Some (f k) else None)"
  by (induction ks) auto

lemma vowel_probabilities_keys:
  "candidates \<noteq> [] \<Longrightarrow>
   fst ` set (vowel_probabilities ai candidates used) =
     {v \<in> set (vowels ai). v \<notin> used \<and> (\<exists>w \<in> set candidates. v \<in> set w)}"
  by (simp add: vowel_probabilities_def Let_def image_image count_all_keys[simplified])

lemma vowel_probabilities_distinct:
  "distinct (map fst (vowel_probabilities ai candidates used))"
  by (simp add: vowel_probabilities_def Let_def comp_def count_all_distinct)

lemma vowel_probabilities_value:
  assumes "distinct (vowels ai)" and "candidates \<noteq> []"
    and "v \<in> fst ` set (vowel_probabilities ai candidates used)"
  shows "map_of (vowel_probabilities ai candidates used) v =
           Some (of_nat (length (filter (\<lambda>w. v \<in> set w) candidates)) / of_nat (length candidates))"
proof -
  have v: "v \<in> set (vowels ai)" "v \<notin> used"
    using assms(3) vowel_probabilities_keys[OF assms(2), of ai used] by auto
  let ?counts = "foldl (count_word (vowels ai) used) [] candidates"
  have k: "v \<in> fst ` set ?counts"
    using assms(3) assms(2) by (simp add: vowel_probabilities_def Let_def image_image)
  have g: "counter_get ?counts v = length (filter (\<lambda>w. v \<in> set w) candidates)"
    using count_all_get[OF assms(1), of used "[]" candidates v] v
    by (simp add: counter_get_def)
  show ?thesis
    using k g assms(2)
    by (simp add: vowel_probabilities_def Let_def map_of_tabulate del: map_map)
qed

text \<open>
  C3. For a non-empty candidate list the returned mapping has each key once; its keys
  are exactly the vowels that are not in \<open>used_letters\<close> and occur in at least one
  candidate; and the value of each key is the number of candidates that contain the
  vowel, however often, divided by the number of candidates.
\<close>

theorem vowel_probabilities_spec:
  assumes "vowels_ok ai" and "candidates \<noteq> []"
  shows "distinct (map fst (vowel_probabilities ai candidates used_letters)) \<and>
         fst ` set (vowel_probabilities ai candidates used_letters) =
           {v \<in> set ''AEIOU''. v \<notin> used_letters \<and> (\<exists>w \<in> set candidates. v \<in> set w)} \<and>
         (\<forall>v \<in> fst ` set (vowel_probabilities ai candidates used_letters).
            map_of (vowel_probabilities ai candidates used_letters) v =
              Some (of_nat (length (filter (\<lambda>w. v \<in> set w) candidates)) /
                    of_nat (length candidates)))"
proof (intro conjI ballI)
  show "distinct (map fst (vowel_probabilities ai candidates used_letters))"
    by (rule vowel_probabilities_distinct)
next
  have "set (vowels ai) = set ''AEIOU''"
    using assms(1) by (simp add: vowels_ok_def)
  then show "fst ` set (vowel_probabilities ai candidates used_letters) =
      {v \<in> set ''AEIOU''. v \<notin> used_letters \<and> (\<exists>w \<in> set candidates. v \<in> set w)}"
    using vowel_probabilities_keys[OF assms(2), of ai used_letters] by simp
next
  fix v assume "v \<in> fst ` set (vowel_probabilities ai candidates used_letters)"
  then show "map_of (vowel_probabilities ai candidates used_letters) v =
      Some (of_nat (length (filter (\<lambda>w. v \<in> set w) candidates)) / of_nat (length candidates))"
    using assms by (intro vowel_probabilities_value) (simp_all add: vowels_ok_def)
qed

theorem vowel_probabilities_spec_witness:
  "vowels_ok (default_ai ''AEIOU'') \<and> [''APPLE'', ''GRAPE'', ''CHERRY''] \<noteq> [] \<and>
   fst ` set (vowel_probabilities (default_ai ''AEIOU'') [''APPLE'', ''GRAPE'', ''CHERRY''] {CHR ''E''}) =
     {CHR ''A''} \<and>
   map_of (vowel_probabilities (default_ai ''AEIOU'') [''APPLE'', ''GRAPE'', ''CHERRY''] {CHR ''E''})
     (CHR ''A'') = Some (2 / 3)"
proof -
  have h1: "vowels_ok (default_ai ''AEIOU'')"
    by (simp add: vowels_ok_def default_ai_def)
  have h2: "[''APPLE'', ''GRAPE'', ''CHERRY''] \<noteq> []"
    by simp
  have e: "vowel_probabilities (default_ai ''AEIOU'') [''APPLE'', ''GRAPE'', ''CHERRY''] {CHR ''E''} =
             [(CHR ''A'', 2 / 3)]"
    by code_simp
  show ?thesis
    using h1 vowel_probabilities_spec [OF h1 h2, of "{CHR ''E''}"] e by simp
qed

text \<open>
  C6, as the specification states it: when the board determines one corpus word, the
  probability is 1 for every vowel of that word. On the board \<open>_ P P L E\<close> with P, L
  and E used, APPLE is the only candidate and contains E, but the mapping has no entry
  for E, because \<open>_vowel_probabilities\<close> skips the vowels in \<open>used_letters\<close>.
\<close>

theorem used_vowel_of_unique_word_missing:
  "get_candidates (default_ai ''AEIOU'') ''_ P P L E'' {CHR ''P'', CHR ''L'', CHR ''E''} =
     Inr [''APPLE''] \<and>
   CHR ''E'' \<in> set ''APPLE'' \<and>
   map_of (vowel_probabilities (default_ai ''AEIOU'') [''APPLE''] {CHR ''P'', CHR ''L'', CHR ''E''})
     (CHR ''E'') \<noteq> Some 1"
  by code_simp

text \<open>
  C6, amended: when the candidates are the single word \<open>w\<close>, the mapping holds 1 for
  every vowel of \<open>w\<close> that is not in \<open>used_letters\<close>, and has no entry for any other
  vowel, be it absent from \<open>w\<close> or already used.
\<close>

theorem unique_candidate_probabilities:
  assumes "vowels_ok ai"
    and "get_candidates ai board_pattern used_letters = Inr [w]"
  shows "\<forall>v \<in> set ''AEIOU''.
           map_of (vowel_probabilities ai [w] used_letters) v =
             (if v \<in> set w \<and> v \<notin> used_letters then Some 1 else None)"
proof
  fix v assume v: "v \<in> set ''AEIOU''"
  have vs: "set (vowels ai) = set ''AEIOU''" and d: "distinct (vowels ai)"
    using assms(1) by (simp_all add: vowels_ok_def)
  let ?P = "vowel_probabilities ai [w] used_letters"
  have keys: "fst ` set ?P = {u \<in> set (vowels ai). u \<notin> used_letters \<and> u \<in> set w}"
    using vowel_probabilities_keys[of "[w]" ai used_letters] by simp
  show "map_of ?P v = (if v \<in> set w \<and> v \<notin> used_letters then Some 1 else None)"
  proof (cases "v \<in> set w \<and> v \<notin> used_letters")
    case True
    then have "v \<in> fst ` set ?P"
      using keys v vs by simp
    then have "map_of ?P v = Some (of_nat (length (filter (\<lambda>w. v \<in> set w) [w])) / of_nat (length [w]))"
      using d by (intro vowel_probabilities_value) simp_all
    with True show ?thesis by simp
  next
    case False
    then have "v \<notin> fst ` set ?P"
      using keys by auto
    then have "map_of ?P v = None"
      by (simp add: map_of_eq_None_iff)
    with False show ?thesis by simp
  qed
qed

theorem unique_candidate_probabilities_witness:
  "vowels_ok (default_ai ''AEIOU'') \<and>
   get_candidates (default_ai ''AEIOU'') ''_ P P L E'' {CHR ''P'', CHR ''L'', CHR ''E''} =
     Inr [''APPLE''] \<and>
   map_of (vowel_probabilities (default_ai ''AEIOU'') [''APPLE''] {CHR ''P'', CHR ''L'', CHR ''E''})
     (CHR ''A'') = Some 1 \<and>
   map_of (vowel_probabilities (default_ai ''AEIOU'') [''APPLE''] {CHR ''P'', CHR ''L'', CHR ''E''})
     (CHR ''E'') = None \<and>
   map_of (vowel_probabilities (default_ai ''AEIOU'') [''APPLE''] {CHR ''P'', CHR ''L'', CHR ''E''})
     (CHR ''O'') = None"
proof -
  have h1: "vowels_ok (default_ai ''AEIOU'')"
    by (simp add: vowels_ok_def default_ai_def)
  have h2: "get_candidates (default_ai ''AEIOU'') ''_ P P L E'' {CHR ''P'', CHR ''L'', CHR ''E''} =
              Inr [''APPLE'']"
    by code_simp
  show ?thesis
    using h1 h2 unique_candidate_probabilities [OF h1 h2]
    by simp
qed

subsection \<open>The fallback estimator\<close>

lemma fallback_fold_map_of:
  "map_of (foldl (\<lambda>scores v. if v \<in> used then scores else AList.update v (f v) scores) init vs) u =
     (if u \<in> set vs \<and> u \<notin> used then Some (f u) else map_of init u)"
  by (induction vs arbitrary: init) (auto simp: AList.update_conv')

lemma fallback_fold_distinct:
  "distinct (map fst init) \<Longrightarrow>
   distinct (map fst (foldl (\<lambda>scores v. if v \<in> used then scores else AList.update v (f v) scores) init vs))"
  by (induction vs arbitrary: init) (auto simp: AList.distinct_update)

lemma fallback_stats_map_of:
  "remove_spaces board \<noteq> [] \<Longrightarrow>
   map_of (fallback_stats ai board used) v =
     (if v \<in> set (vowels ai) \<and> v \<notin> used
      then Some (vowel_freq v * info_need (remove_spaces board) * 2) else None)"
  by (simp add: fallback_stats_def Let_def fallback_fold_map_of)

lemma fallback_stats_empty: "remove_spaces board = [] \<Longrightarrow> fallback_stats ai board used = []"
  by (simp add: fallback_stats_def)

lemma fallback_stats_distinct: "distinct (map fst (fallback_stats ai board used))"
  by (simp add: fallback_stats_def Let_def fallback_fold_distinct)

lemma fallback_stats_keys:
  "fst ` set (fallback_stats ai board used) \<subseteq> {v \<in> set (vowels ai). v \<notin> used}"
proof (cases "remove_spaces board = []")
  case True
  then show ?thesis by (simp add: fallback_stats_empty)
next
  case False
  show ?thesis
  proof
    fix v assume "v \<in> fst ` set (fallback_stats ai board used)"
    then have "map_of (fallback_stats ai board used) v \<noteq> None"
      by (simp add: map_of_eq_None_iff)
    then show "v \<in> {v \<in> set (vowels ai). v \<notin> used}"
      using fallback_stats_map_of[OF False, of ai used v] by (simp split: if_splits)
  qed
qed

lemma info_need_filled:
  "clean \<noteq> [] \<Longrightarrow>
   info_need clean = 1 - of_nat (length (filter (\<lambda>c. c \<noteq> CHR ''_'') clean)) / of_nat (length clean)"
proof -
  have "count_list clean CHR ''_'' + length (filter (\<lambda>c. c \<noteq> CHR ''_'') clean) = length clean"
    by (induction clean) auto
  then have "int (length clean) - int (count_list clean CHR ''_'') =
             int (length (filter (\<lambda>c. c \<noteq> CHR ''_'') clean))"
    by linarith
  then show ?thesis
    by (simp add: info_need_def Let_def)
qed

text \<open>
  C4, as the specification states it: the information need is taken over the whole
  pattern, its spaces counted as filled positions. \<open>_fallback_stats\<close> removes the spaces
  first: on the pattern \<open>_ _\<close> it scores E with need 1, not with need 2/3.
\<close>

theorem spaces_not_counted:
  "map_of (fallback_stats (default_ai ''AEIOU'') ''_ _'' {}) (CHR ''E'') \<noteq>
     Some (vowel_freq CHR ''E'' * spec_info_need ''_ _'' * 2)"
  by (simp add: fallback_stats_def remove_spaces_def default_ai_def Let_def info_need_def
        spec_info_need_def vowel_freq_def general_vowel_freq_def)

text \<open>
  C4, amended: the spaces of the pattern are removed first and count neither toward the
  length nor as filled. On what remains, \<open>information_need\<close> is one minus the number of
  characters other than the blank (letters and punctuation) divided by the length; every
  vowel not in \<open>used_letters\<close> gets the score frequency times \<open>information_need\<close> times
  2, with the priors A = 0.082, E = 0.127, I = 0.070, O = 0.075, U = 0.028, and no other
  key is present. When nothing remains of the pattern the mapping is empty.
\<close>

theorem fallback_stats_scores:
  assumes "vowels_ok ai"
  shows "(remove_spaces board_pattern = [] \<longrightarrow>
            fallback_stats ai board_pattern used_letters = []) \<and>
         (remove_spaces board_pattern \<noteq> [] \<longrightarrow>
            (\<forall>v. map_of (fallback_stats ai board_pattern used_letters) v =
               (if v \<in> set ''AEIOU'' \<and> v \<notin> used_letters
                then Some (vowel_freq v *
                       (1 - of_nat (length (filter (\<lambda>c. c \<noteq> CHR ''_'')
                                       (remove_spaces board_pattern))) /
                            of_nat (length (remove_spaces board_pattern))) * 2)
                else None))) \<and>
         vowel_freq CHR ''A'' = 82 / 1000 \<and> vowel_freq CHR ''E'' = 127 / 1000 \<and>
         vowel_freq CHR ''I'' = 70 / 1000 \<and> vowel_freq CHR ''O'' = 75 / 1000 \<and>
         vowel_freq CHR ''U'' = 28 / 1000"
proof (intro conjI impI allI)
  assume "remove_spaces board_pattern = []"
  then show "fallback_stats ai board_pattern used_letters = []"
    by (rule fallback_stats_empty)
next
  fix v
  assume ne: "remove_spaces board_pattern \<noteq> []"
  have vs: "set (vowels ai) = set ''AEIOU''"
    using assms by (simp add: vowels_ok_def)
  show "map_of (fallback_stats ai board_pattern used_letters) v =
         (if v \<in> set ''AEIOU'' \<and> v \<notin> used_letters
          then Some (vowel_freq v *
                 (1 - of_nat (length (filter (\<lambda>c. c \<noteq> CHR ''_'') (remove_spaces board_pattern))) /
                      of_nat (length (remove_spaces board_pattern))) * 2)
          else None)"
    unfolding fallback_stats_map_of[OF ne] info_need_filled[OF ne] vs ..
qed (simp_all add: vowel_freq_def general_vowel_freq_def)

theorem fallback_stats_scores_witness:
  "vowels_ok (default_ai ''AEIOU'') \<and> remove_spaces ''_ P P L E'' \<noteq> [] \<and>
   map_of (fallback_stats (default_ai ''AEIOU'') ''_ P P L E'' {CHR ''P'', CHR ''L'', CHR ''E''})
     (CHR ''A'') = Some (82 / 1000 * (1 - 4 / 5) * 2)"
proof -
  have h: "vowels_ok (default_ai ''AEIOU'')"
    by (simp add: vowels_ok_def default_ai_def)
  have c: "remove_spaces ''_ P P L E'' = ''_PPLE''"
    by (simp add: remove_spaces_def)
  show ?thesis
    using h fallback_stats_scores [OF h, of "''_ P P L E''" "{CHR ''P'', CHR ''L'', CHR ''E''}"]
    by (simp add: c)
qed

subsection \<open>The choice of the best vowel\<close>

lemma max_from_best:
  "\<exists>v. (max_from best kvs, v) \<in> set (best # kvs) \<and> (\<forall>kv \<in> set (best # kvs). snd kv \<le> v)"
proof (induction kvs arbitrary: best)
  case Nil
  show ?case by (cases best) auto
next
  case (Cons kv kvs)
  show ?case
  proof (cases "snd kv > snd best")
    case True
    obtain v where "(max_from kv kvs, v) \<in> set (kv # kvs)" "\<forall>x \<in> set (kv # kvs). snd x \<le> v"
      using Cons.IH[of kv] by blast
    with True show ?thesis by (intro exI[of _ v]) auto
  next
    case False
    obtain v where "(max_from best kvs, v) \<in> set (best # kvs)" "\<forall>x \<in> set (best # kvs). snd x \<le> v"
      using Cons.IH[of best] by blast
    with False show ?thesis by (intro exI[of _ v]) auto
  qed
qed

lemma max_key_best:
  assumes "max_key d = Inr k"
  shows "\<exists>v. (k, v) \<in> set d \<and> (\<forall>kv \<in> set d. snd kv \<le> v)"
proof (cases d)
  case Nil
  with assms show ?thesis by (simp add: max_key_def)
next
  case (Cons kv kvs)
  with assms have "k = max_from kv kvs" by (simp add: max_key_def)
  with max_from_best[of kv kvs] Cons show ?thesis by simp
qed

lemma max_key_nonempty: "d \<noteq> [] \<Longrightarrow> \<exists>k. max_key d = Inr k"
  by (cases d) (simp_all add: max_key_def)

text \<open>
  C5. With enough money, a non-empty candidate list and a non-empty probability mapping
  whose greatest value is exactly 0.70, the call returns decision True with strategy
  "Pattern Matching" and confidence 0.70: the threshold is inclusive.
\<close>

theorem threshold_inclusive:
  assumes "vowel_cost ai \<le> current_money"
    and "get_candidates ai board_pattern used_letters = Inr candidates"
    and "candidates \<noteq> []"
    and "vowel_probabilities ai candidates used_letters \<noteq> []"
    and "Max (snd ` set (vowel_probabilities ai candidates used_letters)) = 70 / 100"
  shows "\<exists>r. should_buy_vowel ai board_pattern used_letters current_money = Inr r \<and>
             decision r \<and> strategy r = ''Pattern Matching'' \<and> confidence r = 70 / 100 \<and>
             suggested_vowel r \<noteq> None"
proof -
  let ?probs = "vowel_probabilities ai candidates used_letters"
  obtain k where k: "max_key ?probs = Inr k"
    using max_key_nonempty[OF assms(4)] by blast
  from max_key_best[OF k] obtain v where
    v: "(k, v) \<in> set ?probs" and top: "\<forall>kv \<in> set ?probs. snd kv \<le> v"
    by blast
  have "Max (snd ` set ?probs) = v"
  proof (rule Max_eqI)
    show "finite (snd ` set ?probs)" by simp
    show "y \<le> v" if "y \<in> snd ` set ?probs" for y
      using that top by auto
    show "v \<in> snd ` set ?probs"
      using v by force
  qed
  then have v70: "v = 70 / 100"
    using assms(5) by simp
  have "map_of ?probs k = Some v"
    using v vowel_probabilities_distinct[of ai candidates used_letters] by simp
  then have item: "dict_item ?probs k = Inr v"
    by (simp add: dict_item_def)
  have gate: "\<not> current_money < vowel_cost ai"
    using assms(1) by simp
  show ?thesis
    using gate assms(2,3,4) k item v70
    by (simp add: should_buy_vowel_def Let_def)
qed


theorem threshold_inclusive_witness:
  "vowel_cost \<lparr>vowel_cost = 250, vowels = ''AEIOU'',
      corpus = [''AB'', ''AC'', ''AD'', ''AF'', ''AG'', ''AH'', ''AJ'', ''BC'', ''BD'', ''BF'']\<rparr>
     \<le> (250::rat) \<and>
   get_candidates \<lparr>vowel_cost = 250, vowels = ''AEIOU'',
      corpus = [''AB'', ''AC'', ''AD'', ''AF'', ''AG'', ''AH'', ''AJ'', ''BC'', ''BD'', ''BF'']\<rparr>
     ''__'' {} =
     Inr [''AB'', ''AC'', ''AD'', ''AF'', ''AG'', ''AH'', ''AJ'', ''BC'', ''BD'', ''BF''] \<and>
   (\<exists>r. should_buy_vowel \<lparr>vowel_cost = 250, vowels = ''AEIOU'',
      corpus = [''AB'', ''AC'', ''AD'', ''AF'', ''AG'', ''AH'', ''AJ'', ''BC'', ''BD'', ''BF'']\<rparr>
     ''__'' {} 250 = Inr r \<and>
     decision r \<and> strategy r = ''Pattern Matching'' \<and> confidence r = 70 / 100 \<and>
     suggested_vowel r \<noteq> None)"
proof -
  let ?ws = "[''AB'', ''AC'', ''AD'', ''AF'', ''AG'', ''AH'', ''AJ'', ''BC'', ''BD'', ''BF'']"
  let ?ai = "\<lparr>vowel_cost = 250, vowels = ''AEIOU'', corpus = ?ws\<rparr>"
  have h1: "vowel_cost ?ai \<le> (250::rat)"
    by simp
  have h2: "get_candidates ?ai ''__'' {} = Inr ?ws"
    by code_simp
  have h3: "?ws \<noteq> []"
    by simp
  have p: "vowel_probabilities ?ai ?ws {} = [(CHR ''A'', 70 / 100)]"
    by code_simp
  have h4: "vowel_probabilities ?ai ?ws {} \<noteq> []"
    by (simp add: p)
  have h5: "Max (snd ` set (vowel_probabilities ?ai ?ws {})) = 70 / 100"
    by (simp add: p)
  show ?thesis
    using h1 h2 threshold_inclusive [OF h1 h2 h3 h4 h5] by blast
qed

lemma should_buy_vowel_source:
  assumes "should_buy_vowel ai board_pattern used_letters current_money = Inr r"
    and "suggested_vowel r = Some v"
  shows "(\<exists>candidates. candidates \<noteq> [] \<and>
            max_key (vowel_probabilities ai candidates used_letters) = Inr v) \<or>
         max_key (fallback_stats ai board_pattern used_letters) = Inr v"
  using assms
  by (auto simp: should_buy_vowel_def Let_def split: if_splits sum.splits)

text \<open>
  C10. A suggested vowel that is not None is one of A, E, I, O, U and is not in
  \<open>used_letters\<close>.
\<close>

theorem suggested_vowel_unused:
  assumes "vowels_ok ai"
    and "should_buy_vowel ai board_pattern used_letters current_money = Inr r"
    and "suggested_vowel r = Some v"
  shows "v \<in> set ''AEIOU'' \<and> v \<notin> used_letters"
proof -
  have vs: "set (vowels ai) = set ''AEIOU''"
    using assms(1) by (simp add: vowels_ok_def)
  from should_buy_vowel_source[OF assms(2,3)]
  have "v \<in> set (vowels ai) \<and> v \<notin> used_letters"
  proof
    assume "\<exists>candidates. candidates \<noteq> [] \<and>
              max_key (vowel_probabilities ai candidates used_letters) = Inr v"
    then obtain candidates where ne: "candidates \<noteq> []"
      and m: "max_key (vowel_probabilities ai candidates used_letters) = Inr v"
      by blast
    from max_key_best[OF m]
    have "v \<in> fst ` set (vowel_probabilities ai candidates used_letters)"
      by force
    then show ?thesis
      using vowel_probabilities_keys[OF ne, of ai used_letters] by simp
  next
    assume m: "max_key (fallback_stats ai board_pattern used_letters) = Inr v"
    from max_key_best[OF m]
    have "v \<in> fst ` set (fallback_stats ai board_pattern used_letters)"
      by force
    then show ?thesis
      using fallback_stats_keys[of ai board_pattern used_letters] by auto
  qed
  then show ?thesis
    using vs by simp
qed

theorem suggested_vowel_unused_witness:
  "vowels_ok (default_ai ''AEIOU'') \<and>
   should_buy_vowel (default_ai ''AEIOU'') ''_ P P L E'' {CHR ''P'', CHR ''L'', CHR ''E''} 1000 =
     Inr \<lparr>decision = True, suggested_vowel = Some CHR ''A'', reason = HighProbability 1,
          strategy = ''Pattern Matching'', confidence = 1\<rparr> \<and>
   CHR ''A'' \<in> set ''AEIOU'' \<and> CHR ''A'' \<notin> {CHR ''P'', CHR ''L'', CHR ''E''}"
proof -
  have h: "vowels_ok (default_ai ''AEIOU'')"
    by (simp add: vowels_ok_def default_ai_def)
  have e: "should_buy_vowel (default_ai ''AEIOU'') ''_ P P L E''
             {CHR ''P'', CHR ''L'', CHR ''E''} 1000 =
           Inr \<lparr>decision = True, suggested_vowel = Some CHR ''A'', reason = HighProbability 1,
                strategy = ''Pattern Matching'', confidence = 1\<rparr>"
    by code_simp
  have s: "suggested_vowel \<lparr>decision = True, suggested_vowel = Some CHR ''A'',
             reason = HighProbability 1, strategy = ''Pattern Matching'', confidence = 1\<rparr> =
           Some CHR ''A''"
    by simp
  show ?thesis
    using h e suggested_vowel_unused [OF h e s] by blast
qed

subsection \<open>Calls that return\<close>

text \<open>
  When \<open>used_letters\<close> holds no backslash, closing bracket or hyphen and no corpus word
  contains a newline, \<open>should_buy_vowel\<close> raises nothing: the pattern compiles, \<open>max\<close>
  is taken over non-empty mappings only, and its result is a key of the mapping.
\<close>

lemma max_key_item:
  assumes "d \<noteq> []"
  shows "\<exists>k v. max_key d = Inr k \<and> dict_item d k = Inr v"
proof -
  obtain k where k: "max_key d = Inr k"
    using max_key_nonempty[OF assms] by blast
  from max_key_best[OF k] have "k \<in> fst ` set d" by force
  then have "map_of d k \<noteq> None"
    by (simp add: map_of_eq_None_iff)
  then show ?thesis
    using k by (auto simp: dict_item_def)
qed

lemma returns_on_plain_letters:
  assumes "plain_chars used_letters"
    and "\<forall>w \<in> set (corpus ai). CHR 0x0A \<notin> set w"
  shows "\<exists>r. should_buy_vowel ai board_pattern used_letters current_money = Inr r"
proof -
  obtain cands where g: "get_candidates ai board_pattern used_letters = Inr cands"
    using candidates_on_plain_letters[OF assms] by blast
  let ?P = "vowel_probabilities ai cands used_letters"
  let ?F = "fallback_stats ai board_pattern used_letters"
  have p: "?P \<noteq> [] \<Longrightarrow> \<exists>k v. max_key ?P = Inr k \<and> dict_item ?P k = Inr v"
    by (rule max_key_item)
  have f: "?F \<noteq> [] \<Longrightarrow> \<exists>k v. max_key ?F = Inr k \<and> dict_item ?F k = Inr v"
    by (rule max_key_item)
  show ?thesis
    using g p f
    by (auto simp: should_buy_vowel_def Let_def)
qed

end
